theory Spec2Isabelle
  imports Main "HOL-Library.Sublist" "HOL-Library.Multiset"
begin

section \<open>Strings\<close>

text \<open>
  A JavaScript string is a sequence of UTF-16 code units; the model takes the strings
  whose code units are below 256, as \<^typ>\<open>string\<close>, so \<open>length\<close> is the source's
  \<^verbatim>\<open>.length\<close>. Of these code units the character class \<^verbatim>\<open>\s\<close> matches the tab, line
  feed, vertical tab, form feed, carriage return, space and no-break space.
\<close>

definition is_space :: "char \<Rightarrow> bool" where
  "is_space c \<longleftrightarrow>
     c = CHR 0x09 \<or> c = CHR 0x0A \<or> c = CHR 0x0B \<or> c = CHR 0x0C \<or> c = CHR 0x0D \<or>
     c = CHR 0x20 \<or> c = CHR 0xA0"

text \<open>
  \<^verbatim>\<open>text.split(/\s+/)\<close>: the pieces between the maximal runs of whitespace. A run at the
  start or at the end of the text leaves an empty piece there, and the empty text splits
  into one empty piece.
\<close>

fun split_ws :: "string \<Rightarrow> string list" where
  "split_ws [] = [[]]"
| "split_ws [c] = (if is_space c then [[], []] else [[c]])"
| "split_ws (c # d # cs) =
     (if is_space c then (if is_space d then split_ws (d # cs) else [] # split_ws (d # cs))
      else (case split_ws (d # cs) of w # ws \<Rightarrow> (c # w) # ws | [] \<Rightarrow> [[c]]))"

text \<open>\<^verbatim>\<open>Array.prototype.join\<close> on an array of strings.\<close>

fun join :: "string \<Rightarrow> string list \<Rightarrow> string" where
  "join sep [] = []"
| "join sep [x] = x"
| "join sep (x # y # ys) = x @ sep @ join sep (y # ys)"

section \<open>The text wrapper\<close>

text \<open>
  The \<^verbatim>\<open>while\<close> loop of \<^verbatim>\<open>breakText\<close>, over the words still to be shifted, the lines
  pushed so far and the line under construction.
\<close>

fun breakLoop :: "int \<Rightarrow> string list \<Rightarrow> string list \<Rightarrow> string \<Rightarrow> string list \<times> string" where
  "breakLoop len [] lines line = (lines, line)"
| "breakLoop len (word # words) lines line =
     (let line' = line @ (if length line > 0 then '' '' else []) @ word
      in if int (length line') > len then breakLoop len words (lines @ [line']) []
         else breakLoop len words lines line')"

definition breakText :: "string \<Rightarrow> int \<Rightarrow> string list" where
  "breakText text len =
     (case breakLoop len (split_ws text) [] [] of
        (lines, line) \<Rightarrow> if length line > 0 then lines @ [line] else lines)"

section \<open>The schema, as the renderer reads it\<close>

text \<open>
  A type as it is referred to from a field, an argument, a union or a root operation: a
  named type, of which the renderer reads the name and the description, under any number
  of \<^verbatim>\<open>GraphQLList\<close> and \<^verbatim>\<open>GraphQLNonNull\<close> wrappers (\<^verbatim>\<open>ofType\<close>). References are by
  name, so that a schema whose types refer to each other is a finite value.
\<close>

datatype typeRef = TypeName string "string option" | ListOf typeRef | NonNullOf typeRef

text \<open>
  A JavaScript value, as a default value carries it; the renderer only hands it to the
  serializer of the GraphQL library. Numbers are the integers here.
\<close>

datatype jsValue =
    JString string | JNumber int | JBoolean bool | JArray "jsValue list"
  | JObject "(string \<times> jsValue) list"

text \<open>
  A property that may be \<^verbatim>\<open>null\<close> or \<^verbatim>\<open>undefined\<close> is an option, \<open>None\<close> for both.
  Arguments and input fields (\<^verbatim>\<open>inputValue\<close> renders both):
\<close>

record inputValueDef =
  iv_name :: string
  iv_type :: typeRef
  iv_defaultValue :: "jsValue option"

record fieldDef =
  f_name :: string
  f_description :: "string option"
  f_args :: "inputValueDef list"
  f_type :: typeRef
  f_deprecationReason :: "string option"

record enumValueDef =
  ev_name :: string
  ev_description :: "string option"
  ev_deprecationReason :: "string option"

record directiveDef =
  d_name :: string
  d_args :: "inputValueDef list"
  d_locations :: "string list"

text \<open>
  The six classes of named types, each with what its renderer reads: \<^verbatim>\<open>name\<close>,
  \<^verbatim>\<open>getInterfaces()\<close>, the values of \<^verbatim>\<open>getFields()\<close> in key order, \<^verbatim>\<open>getTypes()\<close> and
  \<^verbatim>\<open>getValues()\<close>.
\<close>

record scalarType =
  s_name :: string

record objectType =
  o_name :: string
  o_interfaces :: "typeRef list"
  o_fields :: "fieldDef list"

record interfaceType =
  i_name :: string
  i_fields :: "fieldDef list"

record unionType =
  u_name :: string
  u_types :: "typeRef list"

record enumType =
  e_name :: string
  e_values :: "enumValueDef list"

record inputObjectType =
  io_name :: string
  io_fields :: "inputValueDef list"

datatype graphQLNamedType =
    GraphQLScalarType scalarType
  | GraphQLObjectType objectType
  | GraphQLInterfaceType interfaceType
  | GraphQLUnionType unionType
  | GraphQLEnumType enumType
  | GraphQLInputObjectType inputObjectType

text \<open>
  A \<^verbatim>\<open>GraphQLType\<close> as \<^verbatim>\<open>getSections\<close> and \<^verbatim>\<open>type\<close> receive it: an instance of one of the
  six classes, or a list or non-null wrapper around a reference.
\<close>

datatype graphQLType =
    NamedType graphQLNamedType
  | GraphQLList typeRef
  | GraphQLNonNull typeRef

text \<open>
  A \<^verbatim>\<open>GraphQLSchema\<close>: \<^verbatim>\<open>getDirectives()\<close>, \<^verbatim>\<open>getTypeMap()\<close> as the list of its entries in
  key order (\<^verbatim>\<open>Object.keys\<close> is the list of first components, a lookup is \<open>map_of\<close>; the
  keys are the names of the types), and the three root operation types, each absent or a
  reference.
\<close>

record graphQLSchema =
  directives :: "directiveDef list"
  typeMap :: "(string \<times> graphQLNamedType) list"
  queryType :: "typeRef option"
  mutationType :: "typeRef option"
  subscriptionType :: "typeRef option"

datatype sectionInput = OfType graphQLType | OfSchema graphQLSchema

text \<open>A \<^verbatim>\<open>DocumentSection\<close>.\<close>

record documentSection =
  section_title :: string
  section_description :: string

text \<open>The fields of \<^verbatim>\<open>HTMLDocumentSchemaPlugin\<close>, set by its constructor.\<close>

record plugin =
  title :: string
  url :: "typeRef \<Rightarrow> string"

text \<open>
  What the module imports from the GraphQL library and from the JavaScript runtime, taken
  as parameters: \<^verbatim>\<open>print(astFromValue(value, type))\<close>, which returns the literal or throws;
  the scalar \<^verbatim>\<open>GraphQLString\<close>; the constant \<^verbatim>\<open>DEFAULT_DEPRECATION_REASON\<close>; and
  \<^verbatim>\<open>String.prototype.localeCompare\<close>, whose sign orders two strings.
\<close>

datatype error = Thrown string

record graphql =
  printAstFromValue :: "jsValue \<Rightarrow> typeRef \<Rightarrow> error + string"
  GraphQLString :: typeRef
  DEFAULT_DEPRECATION_REASON :: string
  localeCompare :: "string \<Rightarrow> string \<Rightarrow> int"

text \<open>
  A call that throws ends the render: \<open>bindE\<close> passes the first error on, and \<open>mapE\<close> is
  \<^verbatim>\<open>Array.prototype.map\<close> with a callback that may throw.
\<close>

definition bindE :: "error + 'a \<Rightarrow> ('a \<Rightarrow> error + 'b) \<Rightarrow> error + 'b" where
  "bindE m f = (case m of Inl e \<Rightarrow> Inl e | Inr x \<Rightarrow> f x)"

fun mapE :: "('a \<Rightarrow> error + 'b) \<Rightarrow> 'a list \<Rightarrow> error + 'b list" where
  "mapE f [] = Inr []"
| "mapE f (x # xs) = bindE (f x) (\<lambda>y. bindE (mapE f xs) (\<lambda>ys. Inr (y # ys)))"

text \<open>
  Modelled from the spec: \<^verbatim>\<open>isNullish\<close> of \<^verbatim>\<open>lib/utility\<close>, which is not among the
  sources. It holds of an absent value and of no other.
\<close>

definition isNullish :: "'a option \<Rightarrow> bool" where
  "isNullish v \<longleftrightarrow> v = None"

text \<open>A string is falsy when it is absent or empty.\<close>

definition truthy :: "string option \<Rightarrow> bool" where
  "truthy v \<longleftrightarrow> (case v of None \<Rightarrow> False | Some x \<Rightarrow> x \<noteq> [])"

text \<open>
  \<^verbatim>\<open>Array.prototype.sort\<close> with a comparator: a stable sort, written as insertion from
  the right. For a comparator that orders consistently the stable sorted arrangement is
  the only one, whatever algorithm the runtime uses.
\<close>

fun insertCmp :: "('a \<Rightarrow> 'a \<Rightarrow> int) \<Rightarrow> 'a \<Rightarrow> 'a list \<Rightarrow> 'a list" where
  "insertCmp cmp x [] = [x]"
| "insertCmp cmp x (y # ys) = (if cmp x y \<le> 0 then x # y # ys else y # insertCmp cmp x ys)"

definition sortCmp :: "('a \<Rightarrow> 'a \<Rightarrow> int) \<Rightarrow> 'a list \<Rightarrow> 'a list" where
  "sortCmp cmp xs = foldr (insertCmp cmp) xs []"

section \<open>Markup\<close>

definition keyword :: "string \<Rightarrow> string" where
  \<open>keyword key = ''<span class="keyword operator ts">'' @ key @ ''</span>''\<close>

definition identifier' :: "string \<Rightarrow> string" where
  \<open>identifier' key = ''<span class="identifier">'' @ key @ ''</span>''\<close>

text \<open>
  The loop of \<^verbatim>\<open>useIdentifier\<close>: the marker \<^verbatim>\<open>usedAs\<close> and the type \<^verbatim>\<open>t\<close>, until \<^verbatim>\<open>t\<close> is
  neither a list nor a non-null wrapper; it returns the marker with the name and the
  description of the named type reached.
\<close>

fun useIdentifierLoop :: "string \<Rightarrow> typeRef \<Rightarrow> string \<times> string \<times> string option" where
  "useIdentifierLoop usedAs (ListOf t) = useIdentifierLoop ''[]'' t"
| "useIdentifierLoop usedAs (NonNullOf t) = useIdentifierLoop ''!'' t"
| "useIdentifierLoop usedAs (TypeName n d) = (usedAs, n, d)"

definition useIdentifier :: "typeRef \<Rightarrow> string \<Rightarrow> string" where
  \<open>useIdentifier type u =
     (case useIdentifierLoop [] type of
        (usedAs, n, d) \<Rightarrow>
          ''<a class="support type" href="'' @ u @ ''" title="''
            @ (if truthy d then the d else n) @ ''">'' @ n @ ''</a>''
            @ (if usedAs \<noteq> [] then ''<span class="variable language">'' @ usedAs @ ''</span>''
               else usedAs))\<close>

definition parameter :: "string \<Rightarrow> string" where
  \<open>parameter key = ''<span class="variable parameter">'' @ key @ ''</span>''\<close>

definition comment :: "string \<Rightarrow> string" where
  \<open>comment key = ''<span class="comment line"># '' @ key @ ''</span>''\<close>

definition property :: "string \<Rightarrow> string" where
  \<open>property key = ''<span class="meta">'' @ key @ ''</span>''\<close>

definition val :: "string \<Rightarrow> string" where
  \<open>val key = ''<span class="string">'' @ key @ ''</span>''\<close>

section \<open>The filter policy\<close>

definition isSpecDirective :: "string \<Rightarrow> bool" where
  "isSpecDirective directiveName \<longleftrightarrow>
     directiveName = ''skip'' \<or> directiveName = ''include'' \<or> directiveName = ''deprecated''"

definition isIntrospectionType :: "string \<Rightarrow> bool" where
  "isIntrospectionType typename \<longleftrightarrow> prefix ''__'' typename"

definition isBuiltInScalar :: "string \<Rightarrow> bool" where
  "isBuiltInScalar typename \<longleftrightarrow>
     typename = ''String'' \<or> typename = ''Boolean'' \<or> typename = ''Int'' \<or>
     typename = ''Float'' \<or> typename = ''ID''"

definition isDefinedType :: "string \<Rightarrow> bool" where
  "isDefinedType typename \<longleftrightarrow> \<not> isIntrospectionType typename \<and> \<not> isBuiltInScalar typename"

section \<open>The renderer\<close>

text \<open>
  The methods of \<^verbatim>\<open>HTMLDocumentSchemaPlugin\<close>, over the library \<open>G\<close> and the plugin \<open>P\<close>
  (\<^verbatim>\<open>this\<close>). A method that reads one property of its argument, for arguments of several
  classes (\<^verbatim>\<open>args\<close>, \<^verbatim>\<open>deprecated\<close>, \<^verbatim>\<open>fields\<close>), takes that property. A result is
  \<open>Inr\<close> of the string returned or \<open>Inl\<close> of the error thrown.
\<close>

definition value' :: "graphql \<Rightarrow> jsValue \<Rightarrow> typeRef \<Rightarrow> error + string" where
  "value' G v type = bindE (printAstFromValue G v type) (\<lambda>s. Inr (val s))"

definition inputValue :: "graphql \<Rightarrow> plugin \<Rightarrow> inputValueDef \<Rightarrow> error + string" where
  "inputValue G P arg =
     bindE (if isNullish (iv_defaultValue arg) then Inr []
            else bindE (value' G (the (iv_defaultValue arg)) (iv_type arg))
                   (\<lambda>v. Inr ('' = '' @ v)))
       (\<lambda>defaultValue.
          Inr (iv_name arg @ '': '' @ useIdentifier (iv_type arg) (url P (iv_type arg))
               @ defaultValue))"

definition args :: "graphql \<Rightarrow> plugin \<Rightarrow> inputValueDef list \<Rightarrow> error + string" where
  "args G P as =
     (if length as = 0 then Inr []
      else bindE (mapE (inputValue G P) as) (\<lambda>xs. Inr (''('' @ join '', '' xs @ '')'')))"

definition deprecated :: "graphql \<Rightarrow> string option \<Rightarrow> error + string" where
  "deprecated G reason =
     (if isNullish reason then Inr []
      else if the reason = [] \<or> the reason = DEFAULT_DEPRECATION_REASON G
      then Inr ('' '' @ keyword ''@deprecated'')
      else bindE (value' G (JString (the reason)) (GraphQLString G))
             (\<lambda>v. Inr ('' '' @ keyword ''@deprecated''
                        @ ''('' @ parameter ''reason'' @ '': '' @ val v @ '')'')))"

definition desc :: "string option \<Rightarrow> string" where
  "desc description =
     (if truthy description
      then join ''\<newline>'' (map (\<lambda>descriptionLine. ''  '' @ comment descriptionLine)
                       (breakText (the description) 50)) @ ''\<newline>''
      else [])"

definition directive :: "graphql \<Rightarrow> plugin \<Rightarrow> directiveDef \<Rightarrow> error + string" where
  "directive G P d =
     bindE (args G P (d_args d))
       (\<lambda>a. Inr (keyword ''directive'' @ '' '' @ keyword (''@'' @ d_name d) @ a
                  @ '' on '' @ join '' | '' (map keyword (d_locations d))))"

definition enum' :: "graphql \<Rightarrow> enumType \<Rightarrow> error + string" where
  "enum' G type =
     bindE (mapE (\<lambda>v. bindE (deprecated G (ev_deprecationReason v))
                         (\<lambda>dep. Inr (''\<newline>'' @ desc (ev_description v) @ ''  ''
                                      @ property (ev_name v) @ dep)))
              (e_values type))
       (\<lambda>vs. Inr (keyword ''enum'' @ '' '' @ identifier' (e_name type) @ '' {\<newline>''
                   @ join ''\<newline>'' vs @ ''\<newline>'' @ ''}''))"

definition field :: "graphql \<Rightarrow> plugin \<Rightarrow> fieldDef \<Rightarrow> error + string" where
  "field G P f =
     bindE (args G P (f_args f))
       (\<lambda>a. bindE (deprecated G (f_deprecationReason f))
          (\<lambda>dep. Inr (''\<newline>'' @ desc (f_description f) @ ''  '' @ property (f_name f) @ a
                       @ '': '' @ useIdentifier (f_type f) (url P (f_type f)) @ dep)))"

definition fields :: "graphql \<Rightarrow> plugin \<Rightarrow> fieldDef list \<Rightarrow> error + string" where
  "fields G P fs = bindE (mapE (field G P) fs) (\<lambda>xs. Inr (join ''\<newline>'' xs))"

definition inputObject :: "graphql \<Rightarrow> plugin \<Rightarrow> inputObjectType \<Rightarrow> error + string" where
  "inputObject G P type =
     bindE (mapE (\<lambda>f. bindE (inputValue G P f) (\<lambda>s. Inr (''  '' @ s))) (io_fields type))
       (\<lambda>fs. Inr (keyword ''input'' @ '' '' @ identifier' (io_name type) @ '' {\<newline>''
                   @ join ''\<newline>'' fs @ ''\<newline>'' @ ''}''))"

definition interfaces :: "graphql \<Rightarrow> plugin \<Rightarrow> interfaceType \<Rightarrow> error + string" where
  "interfaces G P type =
     bindE (fields G P (i_fields type))
       (\<lambda>fs. Inr (keyword ''interface'' @ '' '' @ identifier' (i_name type) @ '' {\<newline>''
                   @ fs @ ''\<newline>'' @ ''}''))"

definition object :: "graphql \<Rightarrow> plugin \<Rightarrow> objectType \<Rightarrow> error + string" where
  "object G P type =
     (let implementedInterfaces =
            (if length (o_interfaces type) \<noteq> 0
             then '' '' @ keyword ''implements'' @ '' ''
                  @ join '', '' (map (\<lambda>i. useIdentifier i (url P i)) (o_interfaces type))
             else [])
      in bindE (fields G P (o_fields type))
           (\<lambda>fs. Inr (keyword ''type'' @ '' '' @ identifier' (o_name type)
                       @ implementedInterfaces @ '' {\<newline>'' @ fs @ ''\<newline>'' @ ''}'')))"

definition scalar :: "scalarType \<Rightarrow> string" where
  "scalar type = keyword ''scalar'' @ '' '' @ identifier' (s_name type)"

definition schemaDefinition :: "plugin \<Rightarrow> graphQLSchema \<Rightarrow> string" where
  "schemaDefinition P schema =
     (let operationTypes =
            (case queryType schema of
               Some t \<Rightarrow> [''  '' @ property ''query'' @ '': '' @ useIdentifier t (url P t)]
             | None \<Rightarrow> [])
            @ (case mutationType schema of
                 Some t \<Rightarrow> [''  '' @ property ''mutation'' @ '': '' @ useIdentifier t (url P t)]
               | None \<Rightarrow> [])
            @ (case subscriptionType schema of
                 Some t \<Rightarrow>
                   [''  '' @ property ''subscription'' @ '': '' @ useIdentifier t (url P t)]
               | None \<Rightarrow> [])
      in keyword ''schema'' @ '' {\<newline>'' @ join ''\<newline>'' operationTypes @ ''\<newline>}'')"

definition union' :: "plugin \<Rightarrow> unionType \<Rightarrow> string" where
  "union' P type =
     keyword ''union'' @ u_name type @ '' = ''
       @ join '' | '' (map (\<lambda>t. useIdentifier t (url P t)) (u_types type))"

text \<open>\<^verbatim>\<open>type\<close>: the chain of \<^verbatim>\<open>instanceof\<close> tests, and \<^verbatim>\<open>null\<close> (\<open>None\<close>) when none holds.\<close>

fun type' :: "graphql \<Rightarrow> plugin \<Rightarrow> graphQLType \<Rightarrow> error + string option" where
  "type' G P (NamedType (GraphQLScalarType t)) = Inr (Some (scalar t))"
| "type' G P (NamedType (GraphQLObjectType t)) = bindE (object G P t) (\<lambda>s. Inr (Some s))"
| "type' G P (NamedType (GraphQLInterfaceType t)) = bindE (interfaces G P t) (\<lambda>s. Inr (Some s))"
| "type' G P (NamedType (GraphQLUnionType t)) = Inr (Some (union' P t))"
| "type' G P (NamedType (GraphQLEnumType t)) = bindE (enum' G t) (\<lambda>s. Inr (Some s))"
| "type' G P (NamedType (GraphQLInputObjectType t)) =
     bindE (inputObject G P t) (\<lambda>s. Inr (Some s))"
| "type' G P (GraphQLList t) = Inr None"
| "type' G P (GraphQLNonNull t) = Inr None"

text \<open>
  The names \<^verbatim>\<open>filteredSchema\<close> lists: \<^verbatim>\<open>Object.keys(typeMap).filter(typeFilter).sort(...)\<close>.
\<close>

definition sortedTypeNames ::
  "graphql \<Rightarrow> (string \<Rightarrow> bool) \<Rightarrow> (string \<times> graphQLNamedType) list \<Rightarrow> string list" where
  "sortedTypeNames G typeFilter tm =
     sortCmp (\<lambda>name1 name2. localeCompare G name1 name2) (filter typeFilter (map fst tm))"

text \<open>
  \<^verbatim>\<open>typeMap[typeName]\<close> rendered by \<^verbatim>\<open>type\<close>; a name with no entry would read \<^verbatim>\<open>undefined\<close>,
  of which \<^verbatim>\<open>type\<close> returns \<^verbatim>\<open>null\<close>. \<^verbatim>\<open>Array.prototype.join\<close> writes \<^verbatim>\<open>null\<close> as the
  empty string.
\<close>

definition typeOfName ::
  "graphql \<Rightarrow> plugin \<Rightarrow> (string \<times> graphQLNamedType) list \<Rightarrow> string \<Rightarrow> error + string option" where
  "typeOfName G P tm typeName =
     (case map_of tm typeName of None \<Rightarrow> Inr None | Some t \<Rightarrow> type' G P (NamedType t))"

definition joined :: "string option \<Rightarrow> string" where
  "joined x = (case x of None \<Rightarrow> [] | Some s \<Rightarrow> s)"

definition filteredSchema ::
  "graphql \<Rightarrow> plugin \<Rightarrow> graphQLSchema \<Rightarrow> (string \<Rightarrow> bool) \<Rightarrow> (string \<Rightarrow> bool)
   \<Rightarrow> error + string" where
  "filteredSchema G P schema directiveFilter typeFilter =
     (let directives' = filter (\<lambda>d. directiveFilter (d_name d)) (directives schema);
          types = sortedTypeNames G typeFilter (typeMap schema)
      in bindE (mapE (directive G P) directives')
           (\<lambda>ds. bindE (mapE (typeOfName G P (typeMap schema)) types)
              (\<lambda>ts. Inr (join ''\<newline>\<newline>'' ([schemaDefinition P schema] @ ds @ map joined ts)
                          @ ''\<newline>''))))"

definition schema :: "graphql \<Rightarrow> plugin \<Rightarrow> graphQLSchema \<Rightarrow> error + string" where
  "schema G P s = filteredSchema G P s (\<lambda>n. \<not> isSpecDirective n) isDefinedType"

definition getSections ::
  "graphql \<Rightarrow> plugin \<Rightarrow> sectionInput \<Rightarrow> error + documentSection option" where
  \<open>getSections G P type =
     bindE (case type of
              OfSchema s \<Rightarrow> bindE (schema G P s) (\<lambda>d. Inr (Some d))
            | OfType t \<Rightarrow> type' G P t)
       (\<lambda>definition.
          if truthy definition
          then Inr (Some \<lparr>section_title = title P,
                          section_description =
                            ''<pre class="code">'' @ the definition @ ''</pre>''\<rparr>)
          else Inr None)\<close>

section \<open>Notions the properties are stated with\<close>

text \<open>
  The whitespace-normalized form of a text: its words, the non-empty pieces between the
  runs of whitespace, joined by single spaces.
\<close>

definition whitespace_normalized :: "string \<Rightarrow> string" where
  "whitespace_normalized text = join '' '' (filter (\<lambda>w. w \<noteq> []) (split_ws text))"

text \<open>
  A line fits without its last word when what stands before the last space of the line
  that is followed by a word is at most \<open>len\<close> long.
\<close>

definition fits_without_last_word :: "int \<Rightarrow> string \<Rightarrow> bool" where
  "fits_without_last_word len l \<longleftrightarrow>
     (\<forall>p w. l = p @ '' '' @ w \<and> (\<forall>c\<in>set w. \<not> is_space c) \<longrightarrow> int (length p) \<le> len)"

text \<open>
  The wrappers of a reference, the outermost first, the marker of each, and the named
  type under them.
\<close>

datatype wrapper = ListWrapper | NonNullWrapper

fun wrappers :: "typeRef \<Rightarrow> wrapper list" where
  "wrappers (TypeName n d) = []"
| "wrappers (ListOf t) = ListWrapper # wrappers t"
| "wrappers (NonNullOf t) = NonNullWrapper # wrappers t"

fun marker :: "wrapper \<Rightarrow> string" where
  "marker ListWrapper = ''[]''"
| "marker NonNullWrapper = ''!''"

fun namedOf :: "typeRef \<Rightarrow> string \<times> string option" where
  "namedOf (TypeName n d) = (n, d)"
| "namedOf (ListOf t) = namedOf t"
| "namedOf (NonNullOf t) = namedOf t"

text \<open>
  A default value is well-formed for its declared type when the serializer returns a
  literal for it, and so is a deprecation reason, other than the empty and the default
  one, for the scalar \<open>String\<close>. A field, a named type, a directive and a schema are
  well-formed when the values they carry are.
\<close>

definition serializes :: "graphql \<Rightarrow> jsValue \<Rightarrow> typeRef \<Rightarrow> bool" where
  "serializes G v type \<longleftrightarrow>
     (case printAstFromValue G v type of Inl e \<Rightarrow> False | Inr s \<Rightarrow> True)"

definition wellFormedInputValue :: "graphql \<Rightarrow> inputValueDef \<Rightarrow> bool" where
  "wellFormedInputValue G arg \<longleftrightarrow>
     (case iv_defaultValue arg of None \<Rightarrow> True | Some v \<Rightarrow> serializes G v (iv_type arg))"

definition wellFormedReason :: "graphql \<Rightarrow> string option \<Rightarrow> bool" where
  "wellFormedReason G reason \<longleftrightarrow>
     (case reason of
        None \<Rightarrow> True
      | Some r \<Rightarrow>
          r = [] \<or> r = DEFAULT_DEPRECATION_REASON G \<or>
          serializes G (JString r) (GraphQLString G))"

definition wellFormedField :: "graphql \<Rightarrow> fieldDef \<Rightarrow> bool" where
  "wellFormedField G f \<longleftrightarrow>
     list_all (wellFormedInputValue G) (f_args f) \<and> wellFormedReason G (f_deprecationReason f)"

fun wellFormedType :: "graphql \<Rightarrow> graphQLNamedType \<Rightarrow> bool" where
  "wellFormedType G (GraphQLScalarType t) = True"
| "wellFormedType G (GraphQLObjectType t) = list_all (wellFormedField G) (o_fields t)"
| "wellFormedType G (GraphQLInterfaceType t) = list_all (wellFormedField G) (i_fields t)"
| "wellFormedType G (GraphQLUnionType t) = True"
| "wellFormedType G (GraphQLEnumType t) =
     list_all (\<lambda>v. wellFormedReason G (ev_deprecationReason v)) (e_values t)"
| "wellFormedType G (GraphQLInputObjectType t) =
     list_all (wellFormedInputValue G) (io_fields t)"

definition wellFormedDirective :: "graphql \<Rightarrow> directiveDef \<Rightarrow> bool" where
  "wellFormedDirective G d \<longleftrightarrow> list_all (wellFormedInputValue G) (d_args d)"

definition wellFormedSchema :: "graphql \<Rightarrow> graphQLSchema \<Rightarrow> bool" where
  "wellFormedSchema G S \<longleftrightarrow>
     list_all (wellFormedDirective G) (directives S) \<and>
     list_all (\<lambda>entry. wellFormedType G (snd entry)) (typeMap S)"

text \<open>
  A comparator orders consistently when any two strings compare one way or the other and
  the comparison is transitive.
\<close>

definition total_preorder :: "('a \<Rightarrow> 'a \<Rightarrow> int) \<Rightarrow> bool" where
  "total_preorder cmp \<longleftrightarrow>
     (\<forall>a b. cmp a b \<le> 0 \<or> cmp b a \<le> 0) \<and>
     (\<forall>a b c. cmp a b \<le> 0 \<and> cmp b c \<le> 0 \<longrightarrow> cmp a c \<le> 0)"

section \<open>A library, a plugin and a schema for the examples\<close>

text \<open>
  A comparator that orders strings by their code units, in the place of \<^verbatim>\<open>localeCompare\<close>;
  a serializer that writes a string between double quotes and anything else as \<open>null\<close>;
  a plugin whose links all lead to \<open>#\<close>; and a schema with the directives \<open>skip\<close> and
  \<open>auth\<close>, the types \<open>Widget\<close>, \<open>__Type\<close>, \<open>String\<close> and \<open>Query\<close>, and the query root.
\<close>

fun codeUnitCompare :: "string \<Rightarrow> string \<Rightarrow> int" where
  "codeUnitCompare [] [] = 0"
| "codeUnitCompare [] (y # ys) = - 1"
| "codeUnitCompare (x # xs) [] = 1"
| "codeUnitCompare (x # xs) (y # ys) =
     (if x = y then codeUnitCompare xs ys
      else if (of_char x :: nat) < of_char y then - 1 else 1)"

definition sampleLibrary :: graphql where
  \<open>sampleLibrary =
     \<lparr>printAstFromValue =
        (\<lambda>v type. Inr (case v of JString s \<Rightarrow> ''"'' @ s @ ''"'' | _ \<Rightarrow> ''null'')),
      GraphQLString = TypeName ''String'' None,
      DEFAULT_DEPRECATION_REASON = ''No longer supported'',
      localeCompare = codeUnitCompare\<rparr>\<close>

definition samplePlugin :: plugin where
  "samplePlugin = \<lparr>title = ''Schema'', url = (\<lambda>t. ''#'')\<rparr>"

definition sampleSchema :: graphQLSchema where
  "sampleSchema =
     \<lparr>directives =
        [\<lparr>d_name = ''skip'', d_args = [], d_locations = [''FIELD'']\<rparr>,
         \<lparr>d_name = ''auth'', d_args = [], d_locations = [''OBJECT'', ''FIELD_DEFINITION'']\<rparr>],
      typeMap =
        [(''Widget'', GraphQLScalarType \<lparr>s_name = ''Widget''\<rparr>),
         (''__Type'', GraphQLObjectType \<lparr>o_name = ''__Type'', o_interfaces = [], o_fields = []\<rparr>),
         (''String'', GraphQLScalarType \<lparr>s_name = ''String''\<rparr>),
         (''Query'', GraphQLObjectType
            \<lparr>o_name = ''Query'', o_interfaces = [],
             o_fields = [\<lparr>f_name = ''widget'', f_description = Some ''The widget.'',
                          f_args = [], f_type = NonNullOf (TypeName ''Widget'' None),
                          f_deprecationReason = None\<rparr>]\<rparr>)],
      queryType = Some (TypeName ''Query'' None),
      mutationType = None,
      subscriptionType = None\<rparr>"

definition sampleRendering :: string where
  \<open>sampleRendering = ''<span class="keyword operator ts">schema</span> {\<newline>  <span class="meta">query</span>: <a class="support type" href="#" title="Query">Query</a>\<newline>}\<newline>\<newline><span class="keyword operator ts">directive</span> <span class="keyword operator ts">@auth</span> on <span class="keyword operator ts">OBJECT</span> | <span class="keyword operator ts">FIELD_DEFINITION</span>\<newline>\<newline><span class="keyword operator ts">type</span> <span class="identifier">Query</span> {\<newline>\<newline>  <span class="comment line"># The widget.</span>\<newline>  <span class="meta">widget</span>: <a class="support type" href="#" title="Widget">Widget</a><span class="variable language">!</span>\<newline>}\<newline>\<newline><span class="keyword operator ts">scalar</span> <span class="identifier">Widget</span>\<newline>''\<close>

definition sampleEnum :: enumType where
  "sampleEnum =
     \<lparr>e_name = ''Color'',
      e_values = [\<lparr>ev_name = ''RED'', ev_description = None,
                   ev_deprecationReason = Some ''use CRIMSON''\<rparr>]\<rparr>"

section \<open>The text wrapper: properties\<close>

lemma split_ws_not_Nil: "split_ws s \<noteq> []"
  by (induction s rule: split_ws.induct) (auto split: list.splits)

lemma split_ws_no_space: "w \<in> set (split_ws s) \<Longrightarrow> x \<in> set w \<Longrightarrow> \<not> is_space x"
proof (induction s arbitrary: w rule: split_ws.induct)
  case 1
  then show ?case by simp
next
  case (2 c)
  then show ?case by (auto split: if_splits)
next
  case (3 c d cs)
  show ?case
  proof (cases "is_space c")
    case True
    then show ?thesis using 3 by (auto split: if_splits)
  next
    case False
    obtain v vs where s: "split_ws (d # cs) = v # vs"
      using split_ws_not_Nil by (cases "split_ws (d # cs)") auto
    then have "w = c # v \<or> w \<in> set vs" using False "3.prems"(1) by simp
    moreover have "\<And>u. u \<in> set (v # vs) \<Longrightarrow> x \<in> set u \<Longrightarrow> \<not> is_space x"
      using "3.IH"(3)[OF False] s by simp
    ultimately show ?thesis using False "3.prems"(2) by fastforce
  qed
qed

text \<open>A line ends in at most one way with a space and a word.\<close>

lemma last_word_unique:
  "\<forall>c\<in>set w. \<not> is_space c \<Longrightarrow> \<forall>c\<in>set w'. \<not> is_space c \<Longrightarrow>
   p @ '' '' @ w = p' @ '' '' @ w' \<Longrightarrow> p = p' \<and> w = w'"
proof (induction p arbitrary: p')
  case Nil
  have "is_space (CHR '' '')" by (simp add: is_space_def)
  then show ?case using Nil by (cases p') auto
next
  case (Cons a p)
  have "is_space (CHR '' '')" by (simp add: is_space_def)
  then show ?case using Cons.prems Cons.IH by (cases p') auto
qed

lemma fits_word:
  "\<forall>c\<in>set w. \<not> is_space c \<Longrightarrow> fits_without_last_word len w"
  unfolding fits_without_last_word_def
proof (intro allI impI)
  fix p w'
  assume a: "\<forall>c\<in>set w. \<not> is_space c" "w = p @ '' '' @ w' \<and> (\<forall>c\<in>set w'. \<not> is_space c)"
  then have "CHR '' '' \<in> set w" by simp
  with a(1) show "int (length p) \<le> len" by (auto simp: is_space_def)
qed

lemma fits_append:
  "\<forall>c\<in>set w. \<not> is_space c \<Longrightarrow> int (length line) \<le> len \<Longrightarrow>
   fits_without_last_word len (line @ '' '' @ w)"
  unfolding fits_without_last_word_def
proof (intro allI impI)
  fix p w'
  assume w: "\<forall>c\<in>set w. \<not> is_space c" and l: "int (length line) \<le> len"
    and e: "line @ '' '' @ w = p @ '' '' @ w' \<and> (\<forall>c\<in>set w'. \<not> is_space c)"
  have "line = p \<and> w = w'" by (rule last_word_unique) (use w e in simp_all)
  then show "int (length p) \<le> len" using l by simp
qed

text \<open>The loop pushes a line only when it is longer than \<open>len\<close>.\<close>

lemma breakLoop_long:
  "breakLoop len ws lines line = (ls, l') \<Longrightarrow> \<forall>l\<in>set lines. len < int (length l) \<Longrightarrow>
   \<forall>l\<in>set ls. len < int (length l)"
proof (induction ws arbitrary: lines line)
  case Nil
  then show ?case by simp
next
  case (Cons word words)
  let ?line' = "line @ (if length line > 0 then '' '' else []) @ word"
  show ?case
  proof (cases "int (length ?line') > len")
    case True
    then have "breakLoop len words (lines @ [?line']) [] = (ls, l')"
      using Cons.prems(1) by (simp add: Let_def)
    from Cons.IH[OF this] show ?thesis using True Cons.prems(2) by simp
  next
    case False
    then have "breakLoop len words lines ?line' = (ls, l')"
      using Cons.prems(1) by (simp add: Let_def)
    from Cons.IH[OF this] show ?thesis using Cons.prems(2) by simp
  qed
qed

text \<open>
  The invariant of the loop: the line under construction is empty or at most \<open>len\<close> long,
  and it and every pushed line fit without their last word.
\<close>

lemma breakLoop_fits:
  "breakLoop len ws lines line = (ls, l') \<Longrightarrow>
   \<forall>w\<in>set ws. \<forall>c\<in>set w. \<not> is_space c \<Longrightarrow>
   \<forall>l\<in>set lines. fits_without_last_word len l \<Longrightarrow> fits_without_last_word len line \<Longrightarrow>
   line = [] \<or> int (length line) \<le> len \<Longrightarrow>
   (\<forall>l\<in>set ls. fits_without_last_word len l) \<and> fits_without_last_word len l'"
proof (induction ws arbitrary: lines line)
  case Nil
  then show ?case by simp
next
  case (Cons word words)
  let ?line' = "line @ (if length line > 0 then '' '' else []) @ word"
  have nosp: "\<forall>c\<in>set word. \<not> is_space c" using Cons.prems(2) by simp
  have o: "fits_without_last_word len ?line'"
  proof (cases "line = []")
    case True
    then show ?thesis using fits_word[OF nosp] by simp
  next
    case False
    then have "int (length line) \<le> len" using Cons.prems(5) by simp
    from fits_append[OF nosp this] show ?thesis using False by simp
  qed
  show ?case
  proof (cases "int (length ?line') > len")
    case True
    then have "breakLoop len words (lines @ [?line']) [] = (ls, l')"
      using Cons.prems(1) by (simp add: Let_def)
    moreover have "fits_without_last_word len []" by (simp add: fits_without_last_word_def)
    ultimately show ?thesis
      using Cons.IH[of "lines @ [?line']" "[]"] Cons.prems(2,3) o by simp
  next
    case False
    then have "breakLoop len words lines ?line' = (ls, l')"
      using Cons.prems(1) by (simp add: Let_def)
    then show ?thesis
      using Cons.IH[of lines ?line'] Cons.prems(2,3) o False by simp
  qed
qed

lemma breakLoop_mono:
  "breakLoop len ws lines line = (ls, l') \<Longrightarrow> set lines \<subseteq> set ls"
proof (induction ws arbitrary: lines line)
  case Nil
  then show ?case by simp
next
  case (Cons word words)
  let ?line' = "line @ (if length line > 0 then '' '' else []) @ word"
  show ?case
  proof (cases "int (length ?line') > len")
    case True
    then have "breakLoop len words (lines @ [?line']) [] = (ls, l')"
      using Cons.prems by (simp add: Let_def)
    from Cons.IH[OF this] show ?thesis by simp
  next
    case False
    then have "breakLoop len words lines ?line' = (ls, l')"
      using Cons.prems by (simp add: Let_def)
    from Cons.IH[OF this] show ?thesis .
  qed
qed

text \<open>A word longer than \<open>len\<close> ends the line it is appended to, which is pushed at once.\<close>

lemma breakLoop_long_word:
  "breakLoop len ws lines line = (ls, l') \<Longrightarrow> line = [] \<or> int (length line) \<le> len \<Longrightarrow>
   w \<in> set ws \<Longrightarrow> len < int (length w) \<Longrightarrow>
   \<exists>l\<in>set ls. l = w \<or> (\<exists>p. l = p @ '' '' @ w \<and> int (length p) \<le> len)"
proof (induction ws arbitrary: lines line)
  case Nil
  then show ?case by simp
next
  case (Cons word words)
  let ?line' = "line @ (if length line > 0 then '' '' else []) @ word"
  show ?case
  proof (cases "int (length ?line') > len")
    case True
    then have step: "breakLoop len words (lines @ [?line']) [] = (ls, l')"
      using Cons.prems(1) by (simp add: Let_def)
    show ?thesis
    proof (cases "w = word")
      case True
      have "?line' \<in> set ls" using breakLoop_mono[OF step] by auto
      moreover have "?line' = w \<or> (\<exists>p. ?line' = p @ '' '' @ w \<and> int (length p) \<le> len)"
        using True Cons.prems(2) by auto
      ultimately show ?thesis by blast
    next
      case False
      then show ?thesis using Cons.IH[OF step] Cons.prems(3,4) by simp
    qed
  next
    case False
    then have step: "breakLoop len words lines ?line' = (ls, l')"
      using Cons.prems(1) by (simp add: Let_def)
    have "w \<noteq> word" using False Cons.prems(4) by auto
    then show ?thesis using Cons.IH[OF step] Cons.prems(3,4) False by simp
  qed
qed

text \<open>
  C1, as the claim states it, fails: with width 3 the text \<open>aa bb cc\<close> gives the lines
  \<open>aa bb\<close> and \<open>cc\<close>; the first is not the last line, holds two words, and is 5 long.
\<close>

theorem breakText_width_counterexample:
  "breakText ''aa bb cc'' 3 = [''aa bb'', ''cc''] \<and>
   \<not> int (length (breakText ''aa bb cc'' 3 ! 0)) \<le> 3 \<and>
   breakText ''aa bb cc'' 3 ! 0 \<notin> set (split_ws ''aa bb cc'')"
  by (simp add: breakText_def is_space_def Let_def)

text \<open>
  C1, amended: for every text and every width, every produced line except possibly the
  last is longer than the width, and every produced line without its last word (what
  stands before the space in front of that word) is at most the width long. The loop
  appends a word first and pushes the line once it has become longer than the width.
\<close>

theorem breakText_line_lengths:
  "(\<forall>l\<in>set (butlast (breakText text len)). len < int (length l)) \<and>
   (\<forall>l\<in>set (breakText text len). \<forall>p w.
      l = p @ '' '' @ w \<and> (\<forall>c\<in>set w. \<not> is_space c) \<longrightarrow> int (length p) \<le> len)"
proof -
  obtain ls l' where r: "breakLoop len (split_ws text) [] [] = (ls, l')"
    by (cases "breakLoop len (split_ws text) [] []")
  have long: "\<forall>l\<in>set ls. len < int (length l)"
    using breakLoop_long[OF r] by simp
  have e: "fits_without_last_word len []" by (simp add: fits_without_last_word_def)
  have "\<forall>w\<in>set (split_ws text). \<forall>c\<in>set w. \<not> is_space c"
    using split_ws_no_space by blast
  from breakLoop_fits[OF r this _ e]
  have ov: "(\<forall>l\<in>set ls. fits_without_last_word len l) \<and> fits_without_last_word len l'"
    by simp
  have bt: "breakText text len = (if length l' > 0 then ls @ [l'] else ls)"
    by (simp add: breakText_def r)
  have "set (butlast (breakText text len)) \<subseteq> set ls"
    using bt by (auto dest: in_set_butlastD)
  then have 1: "\<forall>l\<in>set (butlast (breakText text len)). len < int (length l)"
    using long by blast
  have "\<forall>l\<in>set (breakText text len). fits_without_last_word len l"
    using bt ov by auto
  then have 2: "\<forall>l\<in>set (breakText text len). \<forall>p w.
      l = p @ '' '' @ w \<and> (\<forall>c\<in>set w. \<not> is_space c) \<longrightarrow> int (length p) \<le> len"
    unfolding fits_without_last_word_def by simp
  from 1 2 show ?thesis by (rule conjI)
qed

theorem breakText_line_lengths_witness:
  "''aa bb'' \<in> set (butlast (breakText ''aa bb cc'' 3)) \<and> 3 < int (length ''aa bb'') \<and>
   ''aa bb'' \<in> set (breakText ''aa bb cc'' 3) \<and> ''aa bb'' = ''aa'' @ '' '' @ ''bb'' \<and>
   \<not> is_space (CHR ''b'') \<and> int (length ''aa'') \<le> 3"
  using breakText_line_lengths [of "''aa bb cc''" 3]
  by (simp add: breakText_def is_space_def Let_def)

text \<open>
  C2, as the claim states it, fails: with width 5 the text \<open>aa bbbbbbbb\<close> gives the one
  line \<open>aa bbbbbbbb\<close>; the word \<open>bbbbbbbb\<close>, 8 long, shares its line with \<open>aa\<close>.
\<close>

theorem breakText_long_word_counterexample:
  "''bbbbbbbb'' \<in> set (split_ws ''aa bbbbbbbb'') \<and> 5 < int (length ''bbbbbbbb'') \<and>
   breakText ''aa bbbbbbbb'' 5 = [''aa bbbbbbbb''] \<and>
   ''bbbbbbbb'' \<notin> set (breakText ''aa bbbbbbbb'' 5)"
  by (simp add: breakText_def is_space_def Let_def)

text \<open>
  C2, amended: for every text and width, a word longer than the width is never split: it
  stands whole at the end of an output line, which is pushed right after it. That line is
  the word alone, or the words gathered before it, together at most the width long, a
  space and the word.
\<close>

theorem breakText_long_word:
  assumes "w \<in> set (split_ws text)" and "len < int (length w)"
  shows "\<exists>l\<in>set (breakText text len).
           l = w \<or> (\<exists>p. l = p @ '' '' @ w \<and> int (length p) \<le> len)"
proof -
  obtain ls l' where r: "breakLoop len (split_ws text) [] [] = (ls, l')"
    by (cases "breakLoop len (split_ws text) [] []")
  have "set ls \<subseteq> set (breakText text len)" by (auto simp: breakText_def r)
  then show ?thesis using breakLoop_long_word[OF r _ assms] by blast
qed

theorem breakText_long_word_witness:
  "''bbbbbbbb'' \<in> set (split_ws ''aa bbbbbbbb'') \<and> 5 < int (length ''bbbbbbbb'') \<and>
   (\<exists>l\<in>set (breakText ''aa bbbbbbbb'' 5).
      l = ''bbbbbbbb'' \<or> (\<exists>p. l = p @ '' '' @ ''bbbbbbbb'' \<and> int (length p) \<le> 5))"
proof -
  have 1: "''bbbbbbbb'' \<in> set (split_ws ''aa bbbbbbbb'')" by (simp add: is_space_def)
  have 2: "5 < int (length ''bbbbbbbb'')" by simp
  from 1 2 breakText_long_word [OF 1 2] show ?thesis by blast
qed

text \<open>
  Joining the lines gives back the words: for words none of which is empty, the joined
  result of the loop is the pushed lines, the line under construction and the words
  still to come, joined by single spaces.
\<close>

lemma join_append:
  "xs \<noteq> [] \<Longrightarrow> ys \<noteq> [] \<Longrightarrow> join sep (xs @ ys) = join sep xs @ sep @ join sep ys"
proof (induction sep xs rule: join.induct)
  case (1 sep)
  then show ?case by simp
next
  case (2 sep x)
  then show ?case by (cases ys) simp_all
next
  case (3 sep x y zs)
  then show ?case by simp
qed

lemma join_merge:
  "join sep (xs @ (a @ sep @ b) # ys) = join sep (xs @ a # b # ys)"
proof (cases "xs = []")
  case True
  then show ?thesis by (cases ys) simp_all
next
  case False
  have "join sep ((a @ sep @ b) # ys) = join sep (a # b # ys)" by (cases ys) simp_all
  then show ?thesis using False by (simp add: join_append)
qed

lemma breakLoop_join:
  assumes "[] \<notin> set ws" and "breakLoop len ws lines line = (ls, l')"
  shows "join '' '' (if length l' > 0 then ls @ [l'] else ls)
         = join '' '' ((if length line > 0 then lines @ [line] else lines) @ ws)"
  using assms
proof (induction ws arbitrary: lines line)
  case Nil
  then show ?case by simp
next
  case (Cons word words)
  let ?line' = "line @ (if length line > 0 then '' '' else []) @ word"
  have w: "word \<noteq> []" and ws: "[] \<notin> set words" using Cons.prems(1) by auto
  have m: "join '' '' ((lines @ [?line']) @ words)
           = join '' '' ((if length line > 0 then lines @ [line] else lines) @ word # words)"
    using join_merge[of "'' ''" lines line word words] by simp
  show ?case
  proof (cases "int (length ?line') > len")
    case True
    then have "breakLoop len words (lines @ [?line']) [] = (ls, l')"
      using Cons.prems(2) by (simp add: Let_def)
    from Cons.IH[OF ws this] show ?thesis using m by simp
  next
    case False
    then have "breakLoop len words lines ?line' = (ls, l')"
      using Cons.prems(2) by (simp add: Let_def)
    from Cons.IH[OF ws this] show ?thesis using m w by simp
  qed
qed

text \<open>
  Of the pieces of a text only the first and the last can be empty, and the last is not
  when the text does not end in whitespace.
\<close>

lemma split_ws_hd: "s \<noteq> [] \<Longrightarrow> \<not> is_space (hd s) \<Longrightarrow> hd (split_ws s) \<noteq> []"
  by (induction s rule: split_ws.induct) (auto split: list.splits)

lemma split_ws_tl: "s = [] \<or> \<not> is_space (last s) \<Longrightarrow> [] \<notin> set (tl (split_ws s))"
proof (induction s rule: split_ws.induct)
  case 1
  then show ?case by simp
next
  case (2 c)
  then show ?case by simp
next
  case (3 c d cs)
  have l: "d # cs = [] \<or> \<not> is_space (last (d # cs))" using "3.prems" by simp
  show ?case
  proof (cases "is_space c")
    case c: True
    show ?thesis
    proof (cases "is_space d")
      case True
      then show ?thesis using c "3.IH"(1) l by simp
    next
      case False
      have "hd (split_ws (d # cs)) \<noteq> []" using split_ws_hd[of "d # cs"] False by simp
      moreover have "[] \<notin> set (tl (split_ws (d # cs)))" using "3.IH"(2) c False l by simp
      ultimately have "[] \<notin> set (split_ws (d # cs))"
        using split_ws_not_Nil[of "d # cs"] by (cases "split_ws (d # cs)") auto
      then show ?thesis using c False by simp
    qed
  next
    case False
    obtain v vs where s: "split_ws (d # cs) = v # vs"
      using split_ws_not_Nil by (cases "split_ws (d # cs)") auto
    then show ?thesis using False "3.IH"(3) l by simp
  qed
qed

text \<open>
  For a text that does not end in whitespace and a width that is not negative, the lines
  joined by single spaces are the whitespace-normalized text.
\<close>

lemma breakText_join_normalized:
  assumes "text = [] \<or> \<not> is_space (last text)" and "0 \<le> len"
  shows "join '' '' (breakText text len) = whitespace_normalized text"
proof -
  obtain w ws where s: "split_ws text = w # ws"
    using split_ws_not_Nil by (cases "split_ws text") auto
  have ws: "[] \<notin> set ws" using split_ws_tl[OF assms(1)] s by simp
  then have f: "filter (\<lambda>w. w \<noteq> []) ws = ws" by (induction ws) auto
  obtain ls l' where r: "breakLoop len (split_ws text) [] [] = (ls, l')"
    by (cases "breakLoop len (split_ws text) [] []")
  have bt: "breakText text len = (if length l' > 0 then ls @ [l'] else ls)"
    by (simp add: breakText_def r)
  show ?thesis
  proof (cases "w = []")
    case True
    then have "breakLoop len ws [] [] = (ls, l')" using r s assms(2) by (simp add: Let_def)
    from breakLoop_join[OF ws this] show ?thesis
      using bt s True f by (simp add: whitespace_normalized_def)
  next
    case False
    then have "[] \<notin> set (split_ws text)" using ws s by auto
    from breakLoop_join[OF this r] show ?thesis
      using bt s False f by (simp add: whitespace_normalized_def)
  qed
qed

text \<open>
  C8 fails on a text that ends in whitespace: \<^verbatim>\<open>split\<close> leaves an empty last piece, and the
  loop appends a space and that piece to the line. With width 50 the text \<open>a\<close> between two
  spaces gives the one line \<open>a\<close> followed by a space, where the normalized text is \<open>a\<close>;
  the empty piece at the start of the text leaves no space, and joining the pieces
  themselves would keep both.
\<close>

theorem breakText_trailing_space:
  "breakText '' a '' 50 = [''a ''] \<and> join '' '' (breakText '' a '' 50) = ''a '' \<and>
   whitespace_normalized '' a '' = ''a'' \<and> join '' '' (split_ws '' a '') = '' a ''"
  by (simp add: breakText_def whitespace_normalized_def is_space_def Let_def)

section \<open>Type references\<close>

text \<open>The loop keeps the marker of the last wrapper it meets, which is the innermost.\<close>

lemma useIdentifierLoop_innermost:
  "useIdentifierLoop usedAs t =
     (if wrappers t = [] then usedAs else marker (last (wrappers t)), namedOf t)"
  by (induction t arbitrary: usedAs) auto

lemma marker_not_Nil: "marker w \<noteq> []"
  by (cases w) simp_all

text \<open>
  C3: the rendered reference is the link to the named type under the wrappers, followed
  by no marker when there is no wrapper, and otherwise by the one marker of the innermost
  wrapper, \<open>[]\<close> for a list and \<open>!\<close> for a non-null; the outer wrappers leave no trace.
\<close>

theorem useIdentifier_innermost_marker:
  \<open>useIdentifier t u =
     ''<a class="support type" href="'' @ u @ ''" title="''
       @ (if truthy (snd (namedOf t)) then the (snd (namedOf t)) else fst (namedOf t))
       @ ''">'' @ fst (namedOf t) @ ''</a>''
       @ (if wrappers t = [] then []
          else ''<span class="variable language">'' @ marker (last (wrappers t)) @ ''</span>'')\<close>
  by (simp add: useIdentifier_def useIdentifierLoop_innermost marker_not_Nil split: prod.splits)

theorem useIdentifier_innermost_marker_witness:
  \<open>useIdentifier (NonNullOf (ListOf (TypeName ''Int'' None))) ''#''
     = ''<a class="support type" href="#" title="Int">Int</a><span class="variable language">[]</span>'' \<and>
   useIdentifier (TypeName ''Int'' None) ''#''
     = ''<a class="support type" href="#" title="Int">Int</a>''\<close>
  using useIdentifier_innermost_marker [of "NonNullOf (ListOf (TypeName ''Int'' None))" "''#''"]
    useIdentifier_innermost_marker [of "TypeName ''Int'' None" "''#''"]
  by (simp add: truthy_def)

section \<open>Errors\<close>

lemma bindE_Inr [simp]: "bindE (Inr x) f = f x"
  by (simp add: bindE_def)

lemma bindE_Inl [simp]: "bindE (Inl e) f = Inl e"
  by (simp add: bindE_def)

lemma bindE_Inr_iff: "bindE m f = Inr y \<longleftrightarrow> (\<exists>x. m = Inr x \<and> f x = Inr y)"
  by (cases m) simp_all

lemma mapE_Inr_iff:
  "mapE f xs = Inr ys \<longleftrightarrow> list_all2 (\<lambda>x y. f x = Inr y) xs ys"
proof (induction xs arbitrary: ys)
  case Nil
  then show ?case by auto
next
  case (Cons x xs)
  show ?case
    by (cases ys) (auto simp: bindE_Inr_iff Cons.IH)
qed

lemma mapE_set:
  "mapE f xs = Inr ys \<Longrightarrow> y \<in> set ys \<Longrightarrow> \<exists>x\<in>set xs. f x = Inr y"
proof -
  assume "mapE f xs = Inr ys"
  then have "list_all2 (\<lambda>x y. f x = Inr y) xs ys" by (simp add: mapE_Inr_iff)
  then show "y \<in> set ys \<Longrightarrow> \<exists>x\<in>set xs. f x = Inr y"
    by (induction rule: list_all2_induct) auto
qed

lemma mapE_length: "mapE f xs = Inr ys \<Longrightarrow> length ys = length xs"
  by (auto simp: mapE_Inr_iff dest: list_all2_lengthD)

section \<open>The deprecation marker\<close>

text \<open>
  C4: the marker is empty when the reason is absent; it is a space and the keyword
  \<open>@deprecated\<close>, with no parenthesis, when the reason is empty or the default reason;
  and for any other reason it is the keyword followed by \<open>(reason: literal)\<close>, the
  literal being the reason serialized as a value of the scalar \<open>String\<close>. Should the
  serializer throw, the error is passed on.
\<close>

theorem deprecated_marker:
  \<open>deprecated G None = Inr [] \<and>
   (reason = [] \<or> reason = DEFAULT_DEPRECATION_REASON G \<longrightarrow>
      deprecated G (Some reason) = Inr ('' '' @ keyword ''@deprecated'')) \<and>
   (reason \<noteq> [] \<and> reason \<noteq> DEFAULT_DEPRECATION_REASON G \<longrightarrow>
      deprecated G (Some reason) =
        bindE (printAstFromValue G (JString reason) (GraphQLString G))
          (\<lambda>literal. Inr ('' '' @ keyword ''@deprecated'' @ ''('' @ parameter ''reason'' @ '': ''
                           @ val (val literal) @ '')'')))\<close>
  by (cases "printAstFromValue G (JString reason) (GraphQLString G)")
     (auto simp: deprecated_def isNullish_def value'_def)

theorem deprecated_marker_witness:
  \<open>deprecated sampleLibrary None = Inr [] \<and>
   deprecated sampleLibrary (Some []) = Inr '' <span class="keyword operator ts">@deprecated</span>'' \<and>
   deprecated sampleLibrary (Some ''No longer supported'')
     = Inr '' <span class="keyword operator ts">@deprecated</span>'' \<and>
   ''use X instead'' \<noteq> [] \<and> ''use X instead'' \<noteq> DEFAULT_DEPRECATION_REASON sampleLibrary \<and>
   deprecated sampleLibrary (Some ''use X instead'')
     = Inr '' <span class="keyword operator ts">@deprecated</span>(<span class="variable parameter">reason</span>: <span class="string"><span class="string">"use X instead"</span></span>)''\<close>
  using deprecated_marker [of sampleLibrary "[]"]
    deprecated_marker [of sampleLibrary "''No longer supported''"]
    deprecated_marker [of sampleLibrary "''use X instead''"]
  by (simp add: sampleLibrary_def keyword_def parameter_def val_def)

section \<open>The union renderer\<close>

text \<open>
  C7 fails on every union: \<^verbatim>\<open>union\<close> concatenates the keyword and the name with nothing
  between them and does not mark the name as an identifier, where \<^verbatim>\<open>scalar\<close>, \<^verbatim>\<open>object\<close>,
  \<^verbatim>\<open>interfaces\<close>, \<^verbatim>\<open>enum\<close> and \<^verbatim>\<open>inputObject\<close> write the keyword, a space and the
  identifier. The union \<open>SearchResult\<close> of \<open>Photo\<close> and \<open>Person\<close> reads
  \<open>unionSearchResult = Photo | Person\<close>, and the scalar \<open>Date\<close> reads \<open>scalar Date\<close>.
\<close>

theorem union_keyword_not_spaced:
  \<open>union' samplePlugin \<lparr>u_name = ''SearchResult'',
                         u_types = [TypeName ''Photo'' None, TypeName ''Person'' None]\<rparr>
     = ''<span class="keyword operator ts">union</span>SearchResult = <a class="support type" href="#" title="Photo">Photo</a> | <a class="support type" href="#" title="Person">Person</a>'' \<and>
   scalar \<lparr>s_name = ''Date''\<rparr>
     = ''<span class="keyword operator ts">scalar</span> <span class="identifier">Date</span>''\<close>
  by (simp add: union'_def scalar_def samplePlugin_def keyword_def identifier'_def
      useIdentifier_def truthy_def)

section \<open>The type renderer\<close>

lemma keyword_not_Nil: "keyword k \<noteq> []"
  by (simp add: keyword_def)

lemma type'_named_nonempty:
  "type' G P (NamedType n) = Inr res \<Longrightarrow> \<exists>s. res = Some s \<and> s \<noteq> []"
  by (cases n)
     (auto simp: bindE_Inr_iff scalar_def object_def interfaces_def union'_def enum'_def
        inputObject_def keyword_not_Nil Let_def)

text \<open>The renderers return on well-formed input.\<close>

lemma value'_returns: "serializes G v t \<Longrightarrow> \<exists>s. value' G v t = Inr s"
  by (cases "printAstFromValue G v t") (simp_all add: serializes_def value'_def)

lemma inputValue_returns: "wellFormedInputValue G a \<Longrightarrow> \<exists>s. inputValue G P a = Inr s"
proof (cases "iv_defaultValue a")
  case None
  then show ?thesis by (simp add: inputValue_def isNullish_def)
next
  case (Some v)
  assume "wellFormedInputValue G a"
  then have "serializes G v (iv_type a)" using Some by (simp add: wellFormedInputValue_def)
  from value'_returns[OF this] obtain s where "value' G v (iv_type a) = Inr s" by blast
  then show ?thesis using Some by (simp add: inputValue_def isNullish_def)
qed

lemma mapE_returns:
  "list_all (\<lambda>x. \<exists>y. f x = Inr y) xs \<Longrightarrow> \<exists>ys. mapE f xs = Inr ys"
  by (induction xs) auto

lemma args_returns:
  assumes "list_all (wellFormedInputValue G) as"
  shows "\<exists>s. args G P as = Inr s"
proof -
  have "list_all (\<lambda>a. \<exists>y. inputValue G P a = Inr y) as"
    using assms inputValue_returns[of G _ P] by (simp add: list_all_iff)
  from mapE_returns[OF this] obtain xs where "mapE (inputValue G P) as = Inr xs" by blast
  then show ?thesis by (simp add: args_def)
qed

lemma deprecated_returns: "wellFormedReason G r \<Longrightarrow> \<exists>s. deprecated G r = Inr s"
proof (cases r)
  case None
  then show ?thesis by (simp add: deprecated_def isNullish_def)
next
  case (Some x)
  assume w: "wellFormedReason G r"
  show ?thesis
  proof (cases "x = [] \<or> x = DEFAULT_DEPRECATION_REASON G")
    case True
    then show ?thesis using Some by (auto simp: deprecated_def isNullish_def)
  next
    case False
    then have "serializes G (JString x) (GraphQLString G)"
      using w Some by (simp add: wellFormedReason_def)
    from value'_returns[OF this] obtain s where
      "value' G (JString x) (GraphQLString G) = Inr s" by blast
    then show ?thesis using Some False by (simp add: deprecated_def isNullish_def)
  qed
qed

lemma field_returns:
  assumes "wellFormedField G f"
  shows "\<exists>s. field G P f = Inr s"
proof -
  from assms have "list_all (wellFormedInputValue G) (f_args f)"
    and "wellFormedReason G (f_deprecationReason f)"
    by (simp_all add: wellFormedField_def)
  from args_returns[OF this(1), of P] deprecated_returns[OF this(2)]
  obtain a d where "args G P (f_args f) = Inr a" "deprecated G (f_deprecationReason f) = Inr d"
    by blast
  then show ?thesis by (simp add: field_def)
qed

lemma fields_returns:
  assumes "list_all (wellFormedField G) fs"
  shows "\<exists>s. fields G P fs = Inr s"
proof -
  have "list_all (\<lambda>f. \<exists>y. field G P f = Inr y) fs"
    using assms field_returns[of G _ P] by (simp add: list_all_iff)
  from mapE_returns[OF this] obtain xs where "mapE (field G P) fs = Inr xs" by blast
  then show ?thesis by (simp add: fields_def)
qed

lemma directive_returns:
  assumes "wellFormedDirective G d"
  shows "\<exists>s. directive G P d = Inr s"
proof -
  from assms have "list_all (wellFormedInputValue G) (d_args d)"
    by (simp add: wellFormedDirective_def)
  from args_returns[OF this, of P] obtain a where "args G P (d_args d) = Inr a" by blast
  then show ?thesis by (simp add: directive_def)
qed

lemma enum'_returns:
  assumes "list_all (\<lambda>v. wellFormedReason G (ev_deprecationReason v)) (e_values t)"
  shows "\<exists>s. enum' G t = Inr s"
proof -
  let ?f = "\<lambda>v. bindE (deprecated G (ev_deprecationReason v))
                (\<lambda>dep. Inr (''\<newline>'' @ desc (ev_description v) @ ''  ''
                             @ property (ev_name v) @ dep))"
  have "list_all (\<lambda>v. \<exists>y. ?f v = Inr y) (e_values t)"
    unfolding list_all_iff
  proof
    fix v assume "v \<in> set (e_values t)"
    then have "wellFormedReason G (ev_deprecationReason v)"
      using assms by (simp add: list_all_iff)
    from deprecated_returns[OF this] obtain d where
      "deprecated G (ev_deprecationReason v) = Inr d" by blast
    then show "\<exists>y. ?f v = Inr y" by simp
  qed
  from mapE_returns[OF this] obtain vs where "mapE ?f (e_values t) = Inr vs" by blast
  then show ?thesis by (simp add: enum'_def)
qed

lemma inputObject_returns:
  assumes "list_all (wellFormedInputValue G) (io_fields t)"
  shows "\<exists>s. inputObject G P t = Inr s"
proof -
  let ?f = "\<lambda>f. bindE (inputValue G P f) (\<lambda>s. Inr (''  '' @ s))"
  have "list_all (\<lambda>v. \<exists>y. ?f v = Inr y) (io_fields t)"
    unfolding list_all_iff
  proof
    fix v assume "v \<in> set (io_fields t)"
    then have "wellFormedInputValue G v" using assms by (simp add: list_all_iff)
    from inputValue_returns[OF this, of P] obtain s where "inputValue G P v = Inr s" by blast
    then show "\<exists>y. ?f v = Inr y" by simp
  qed
  from mapE_returns[OF this] obtain fs where "mapE ?f (io_fields t) = Inr fs" by blast
  then show ?thesis by (simp add: inputObject_def)
qed

lemma type'_returns:
  assumes "wellFormedType G n"
  shows "\<exists>r. type' G P (NamedType n) = Inr r"
proof (cases n)
  case (GraphQLScalarType x)
  then show ?thesis by simp
next
  case (GraphQLObjectType x)
  then have "list_all (wellFormedField G) (o_fields x)" using assms by simp
  from fields_returns[OF this, of P] obtain fs where "fields G P (o_fields x) = Inr fs" by blast
  then show ?thesis using GraphQLObjectType by (simp add: object_def Let_def)
next
  case (GraphQLInterfaceType x)
  then have "list_all (wellFormedField G) (i_fields x)" using assms by simp
  from fields_returns[OF this, of P] obtain fs where "fields G P (i_fields x) = Inr fs" by blast
  then show ?thesis using GraphQLInterfaceType by (simp add: interfaces_def)
next
  case (GraphQLUnionType x)
  then show ?thesis by simp
next
  case (GraphQLEnumType x)
  then have "list_all (\<lambda>v. wellFormedReason G (ev_deprecationReason v)) (e_values x)"
    using assms by simp
  from enum'_returns[OF this] obtain s where "enum' G x = Inr s" by blast
  then show ?thesis using GraphQLEnumType by simp
next
  case (GraphQLInputObjectType x)
  then have "list_all (wellFormedInputValue G) (io_fields x)" using assms by simp
  from inputObject_returns[OF this, of P] obtain s where "inputObject G P x = Inr s" by blast
  then show ?thesis using GraphQLInputObjectType by simp
qed

text \<open>
  C9: \<^verbatim>\<open>type\<close> returns \<^verbatim>\<open>null\<close> exactly for a list or non-null wrapper, the inputs
  outside the six classes, and \<^verbatim>\<open>getSections\<close> then returns \<^verbatim>\<open>null\<close> and no error. For a
  type of one of the six classes, whatever \<^verbatim>\<open>type\<close> returns is a string and not empty,
  and it does return when the type is well-formed; on a value that is not, the error of
  the serializer is passed on.
\<close>

theorem type_null_only_outside_variants:
  "(type' G P t = Inr None \<longleftrightarrow> (\<exists>r. t = GraphQLList r \<or> t = GraphQLNonNull r)) \<and>
   getSections G P (OfType (GraphQLList r)) = Inr None \<and>
   getSections G P (OfType (GraphQLNonNull r)) = Inr None \<and>
   (\<forall>res. type' G P (NamedType n) = Inr res \<longrightarrow> (\<exists>s. res = Some s \<and> s \<noteq> [])) \<and>
   (wellFormedType G n \<longrightarrow> (\<exists>s. type' G P (NamedType n) = Inr (Some s) \<and> s \<noteq> []))"
proof -
  have 1: "type' G P t = Inr None \<longleftrightarrow> (\<exists>r. t = GraphQLList r \<or> t = GraphQLNonNull r)"
  proof (cases t)
    case (NamedType m)
    then show ?thesis using type'_named_nonempty[of G P m None] by auto
  qed simp_all
  have 2: "getSections G P (OfType (GraphQLList r)) = Inr None"
    "getSections G P (OfType (GraphQLNonNull r)) = Inr None"
    by (simp_all add: getSections_def truthy_def)
  have 3: "\<forall>res. type' G P (NamedType n) = Inr res \<longrightarrow> (\<exists>s. res = Some s \<and> s \<noteq> [])"
    using type'_named_nonempty by blast
  have 4: "wellFormedType G n \<longrightarrow>
      (\<exists>s. type' G P (NamedType n) = Inr (Some s) \<and> s \<noteq> [])"
  proof
    assume "wellFormedType G n"
    from type'_returns[OF this] obtain res where "type' G P (NamedType n) = Inr res" by blast
    with type'_named_nonempty[OF this] show "\<exists>s. type' G P (NamedType n) = Inr (Some s) \<and> s \<noteq> []"
      by auto
  qed
  from 1 2 3 4 show ?thesis by blast
qed

theorem type_null_only_outside_variants_witness:
  "type' sampleLibrary samplePlugin (GraphQLList (TypeName ''Int'' None)) = Inr None \<and>
   getSections sampleLibrary samplePlugin (OfType (GraphQLNonNull (TypeName ''Int'' None)))
     = Inr None \<and>
   wellFormedType sampleLibrary (GraphQLEnumType sampleEnum) \<and>
   (\<exists>s. type' sampleLibrary samplePlugin (NamedType (GraphQLEnumType sampleEnum))
           = Inr (Some s) \<and> s \<noteq> [])"
proof -
  note T = type_null_only_outside_variants [of sampleLibrary samplePlugin
      "GraphQLList (TypeName ''Int'' None)" "TypeName ''Int'' None" "GraphQLEnumType sampleEnum"]
  have p: "wellFormedType sampleLibrary (GraphQLEnumType sampleEnum)"
    by (simp add: wellFormedReason_def serializes_def sampleLibrary_def sampleEnum_def)
  from T have 1: "type' sampleLibrary samplePlugin (GraphQLList (TypeName ''Int'' None)) = Inr None"
    by blast
  from T have 2: "getSections sampleLibrary samplePlugin
      (OfType (GraphQLNonNull (TypeName ''Int'' None))) = Inr None"
    by blast
  from T p have 3: "\<exists>s. type' sampleLibrary samplePlugin (NamedType (GraphQLEnumType sampleEnum))
           = Inr (Some s) \<and> s \<noteq> []"
    by blast
  from 1 2 p 3 show ?thesis by (intro conjI)
qed

section \<open>The comparator sort\<close>

lemma codeUnitCompare_total: "codeUnitCompare a b \<le> 0 \<or> codeUnitCompare b a \<le> 0"
  by (induction a b rule: codeUnitCompare.induct) auto

lemma codeUnitCompare_trans:
  "codeUnitCompare a b \<le> 0 \<Longrightarrow> codeUnitCompare b c \<le> 0 \<Longrightarrow> codeUnitCompare a c \<le> 0"
proof (induction a b arbitrary: c rule: codeUnitCompare.induct)
  case 1
  then show ?case by simp
next
  case (2 y ys)
  then show ?case by (cases c) auto
next
  case (3 x xs)
  then show ?case by simp
next
  case (4 x xs y ys)
  show ?case
  proof (cases c)
    case Nil
    then show ?thesis using 4 by simp
  next
    case (Cons z zs)
    then show ?thesis using 4 by (auto split: if_splits)
  qed
qed

lemma set_insertCmp: "set (insertCmp cmp x xs) = insert x (set xs)"
  by (induction xs) auto

lemma mset_insertCmp: "mset (insertCmp cmp x xs) = add_mset x (mset xs)"
  by (induction xs) auto

lemma mset_sortCmp: "mset (sortCmp cmp xs) = mset xs"
  by (induction xs) (simp_all add: sortCmp_def mset_insertCmp)

lemma set_sortCmp: "set (sortCmp cmp xs) = set xs"
  by (induction xs) (simp_all add: sortCmp_def set_insertCmp)

lemma sorted_insertCmp:
  assumes total: "\<And>a b. cmp a b \<le> 0 \<or> cmp b a \<le> (0::int)"
    and trans: "\<And>a b c. cmp a b \<le> 0 \<Longrightarrow> cmp b c \<le> 0 \<Longrightarrow> cmp a c \<le> (0::int)"
  shows "sorted_wrt (\<lambda>a b. cmp a b \<le> 0) xs \<Longrightarrow>
         sorted_wrt (\<lambda>a b. cmp a b \<le> 0) (insertCmp cmp x xs)"
proof (induction xs)
  case Nil
  then show ?case by simp
next
  case (Cons y ys)
  have ys: "\<forall>z\<in>set ys. cmp y z \<le> 0" and s: "sorted_wrt (\<lambda>a b. cmp a b \<le> 0) ys"
    using Cons.prems by simp_all
  show ?case
  proof (cases "cmp x y \<le> 0")
    case True
    have "\<forall>z\<in>set ys. cmp x z \<le> 0"
    proof
      fix z assume "z \<in> set ys"
      then have "cmp y z \<le> 0" using ys by blast
      with True show "cmp x z \<le> 0" by (rule trans)
    qed
    then show ?thesis using True ys s by simp
  next
    case False
    then have "cmp y x \<le> 0" using total[of x y] by simp
    then show ?thesis using False ys Cons.IH[OF s] by (simp add: set_insertCmp)
  qed
qed

lemma sorted_sortCmp:
  assumes "\<And>a b. cmp a b \<le> 0 \<or> cmp b a \<le> (0::int)"
    and "\<And>a b c. cmp a b \<le> 0 \<Longrightarrow> cmp b c \<le> 0 \<Longrightarrow> cmp a c \<le> (0::int)"
  shows "sorted_wrt (\<lambda>a b. cmp a b \<le> 0) (sortCmp cmp xs)"
proof (induction xs)
  case Nil
  then show ?case by (simp add: sortCmp_def)
next
  case (Cons x xs)
  have "sortCmp cmp (x # xs) = insertCmp cmp x (sortCmp cmp xs)" by (simp add: sortCmp_def)
  then show ?case using sorted_insertCmp[of cmp "sortCmp cmp xs" x, OF assms Cons] by simp
qed

section \<open>How the blocks end\<close>

lemma join_last:
  "xs \<noteq> [] \<Longrightarrow> last xs \<noteq> [] \<Longrightarrow> join sep xs \<noteq> [] \<and> last (join sep xs) = last (last xs)"
  by (induction sep xs rule: join.induct) auto

lemma last_keyword: "last (keyword k) = CHR ''>''"
  by (simp add: keyword_def)

lemma last_identifier': "last (identifier' k) = CHR ''>''"
  by (simp add: identifier'_def)

lemma useIdentifier_last: "useIdentifier t u \<noteq> [] \<and> last (useIdentifier t u) = CHR ''>''"
  by (simp add: useIdentifier_def split: prod.splits)

lemma schemaDefinition_last:
  "schemaDefinition P S \<noteq> [] \<and> last (schemaDefinition P S) = CHR ''}''"
  by (simp add: schemaDefinition_def Let_def)

lemma directive_last:
  assumes "directive G P d = Inr s"
  shows "s \<noteq> [] \<and> last s \<noteq> CHR ''\<newline>''"
proof -
  obtain a where s: "s = keyword ''directive'' @ '' '' @ keyword (''@'' @ d_name d) @ a
      @ '' on '' @ join '' | '' (map keyword (d_locations d))"
    using assms by (auto simp: directive_def bindE_Inr_iff)
  show ?thesis
  proof (cases "d_locations d = []")
    case True
    then show ?thesis using s by simp
  next
    case False
    then have "map keyword (d_locations d) \<noteq> []" "last (map keyword (d_locations d)) \<noteq> []"
      by (simp_all add: last_map keyword_not_Nil)
    from join_last[OF this, of "'' | ''"] show ?thesis
      using s False by (simp add: last_map last_keyword)
  qed
qed

lemma union'_last: "union' P t \<noteq> [] \<and> last (union' P t) \<noteq> CHR ''\<newline>''"
proof (cases "u_types t = []")
  case True
  then show ?thesis by (simp add: union'_def keyword_not_Nil)
next
  case False
  let ?xs = "map (\<lambda>t. useIdentifier t (url P t)) (u_types t)"
  have "?xs \<noteq> []" "last ?xs \<noteq> []"
    using False by (simp_all add: last_map useIdentifier_last)
  from join_last[OF this, of "'' | ''"] show ?thesis
    using False by (simp add: union'_def last_map useIdentifier_last)
qed

lemma type'_last:
  "type' G P (NamedType n) = Inr (Some s) \<Longrightarrow> s \<noteq> [] \<and> last s \<noteq> CHR ''\<newline>''"
proof (cases n)
  case (GraphQLScalarType x)
  assume "type' G P (NamedType n) = Inr (Some s)"
  then show ?thesis using GraphQLScalarType
    by (auto simp: scalar_def last_identifier' identifier'_def)
next
  case (GraphQLUnionType x)
  assume "type' G P (NamedType n) = Inr (Some s)"
  then show ?thesis using GraphQLUnionType union'_last[of P x] by auto
qed (auto simp: bindE_Inr_iff object_def interfaces_def enum'_def inputObject_def Let_def)

section \<open>The schema renderer\<close>

lemma codeUnitCompare_preorder: "total_preorder codeUnitCompare"
  unfolding total_preorder_def
  using codeUnitCompare_total codeUnitCompare_trans by blast

lemma isDefinedType_iff:
  "isDefinedType k \<longleftrightarrow>
     \<not> prefix ''__'' k \<and> k \<notin> {''String'', ''Boolean'', ''Int'', ''Float'', ''ID''}"
  by (auto simp: isDefinedType_def isIntrospectionType_def isBuiltInScalar_def)

lemma schema_Inr_iff:
  "schema G P S = Inr out \<longleftrightarrow>
     (\<exists>ds ts.
        mapE (directive G P) (filter (\<lambda>d. \<not> isSpecDirective (d_name d)) (directives S)) = Inr ds \<and>
        mapE (typeOfName G P (typeMap S)) (sortedTypeNames G isDefinedType (typeMap S)) = Inr ts \<and>
        out = join ''\<newline>\<newline>'' ([schemaDefinition P S] @ ds @ map joined ts) @ ''\<newline>'')"
  by (auto simp: schema_def filteredSchema_def Let_def bindE_Inr_iff)

lemma sortedTypeNames_keys:
  "k \<in> set (sortedTypeNames G f tm) \<Longrightarrow> \<exists>t. map_of tm k = Some t"
proof -
  assume "k \<in> set (sortedTypeNames G f tm)"
  then have "k \<in> fst ` set tm" by (auto simp: sortedTypeNames_def set_sortCmp)
  then show ?thesis by (cases "map_of tm k") (auto simp: map_of_eq_None_iff)
qed


lemma typeOfName_block:
  assumes "typeOfName G P tm k = Inr t" and "k \<in> set (sortedTypeNames G f tm)"
  shows "\<exists>s. t = Some s \<and> s \<noteq> [] \<and> last s \<noteq> CHR ''\<newline>''"
proof -
  from sortedTypeNames_keys[OF assms(2)] obtain n where n: "map_of tm k = Some n" by blast
  then have t: "type' G P (NamedType n) = Inr t" using assms(1) by (simp add: typeOfName_def)
  from type'_named_nonempty[OF t] obtain s where s: "t = Some s" by blast
  with t type'_last[of G P n s] show ?thesis by simp
qed

lemma typeOfName_returns:
  assumes "list_all (\<lambda>entry. wellFormedType G (snd entry)) tm"
  shows "\<exists>t. typeOfName G P tm k = Inr t"
proof (cases "map_of tm k")
  case None
  then show ?thesis by (simp add: typeOfName_def)
next
  case (Some n)
  then have "(k, n) \<in> set tm" by (rule map_of_SomeD)
  then have "wellFormedType G n" using assms by (auto simp: list_all_iff)
  from type'_returns[OF this, of P] show ?thesis using Some by (simp add: typeOfName_def)
qed

lemma schema_returns:
  assumes "wellFormedSchema G S"
  shows "\<exists>out. schema G P S = Inr out"
proof -
  from assms have d: "list_all (wellFormedDirective G) (directives S)"
    and t: "list_all (\<lambda>entry. wellFormedType G (snd entry)) (typeMap S)"
    by (simp_all add: wellFormedSchema_def)
  have "list_all (\<lambda>d. \<exists>y. directive G P d = Inr y)
          (filter (\<lambda>d. \<not> isSpecDirective (d_name d)) (directives S))"
    using d directive_returns[of G _ P] by (simp add: list_all_iff)
  from mapE_returns[OF this] obtain ds where "mapE (directive G P)
          (filter (\<lambda>d. \<not> isSpecDirective (d_name d)) (directives S)) = Inr ds" by blast
  moreover have "list_all (\<lambda>k. \<exists>y. typeOfName G P (typeMap S) k = Inr y)
          (sortedTypeNames G isDefinedType (typeMap S))"
    using typeOfName_returns[OF t, of P] by (simp add: list_all_iff)
  from mapE_returns[OF this] obtain ts where "mapE (typeOfName G P (typeMap S))
          (sortedTypeNames G isDefinedType (typeMap S)) = Inr ts" by blast
  ultimately show ?thesis unfolding schema_Inr_iff by blast
qed

lemma schema_blocks:
  assumes ds: "mapE (directive G P) dirs = Inr ds"
    and ts: "mapE (typeOfName G P tm) (sortedTypeNames G f tm) = Inr ts"
  shows "\<forall>b\<in>set (schemaDefinition P S # ds @ map joined ts). b \<noteq> [] \<and> last b \<noteq> CHR ''\<newline>''"
proof
  fix b assume "b \<in> set (schemaDefinition P S # ds @ map joined ts)"
  then consider "b = schemaDefinition P S" | "b \<in> set ds" | t where "t \<in> set ts" "b = joined t"
    by auto
  then show "b \<noteq> [] \<and> last b \<noteq> CHR ''\<newline>''"
  proof cases
    case 1
    then show ?thesis using schemaDefinition_last[of P S] by simp
  next
    case 2
    from mapE_set[OF ds this] obtain d where "directive G P d = Inr b" by blast
    then show ?thesis by (rule directive_last)
  next
    case 3
    from mapE_set[OF ts 3(1)] obtain k where
      "k \<in> set (sortedTypeNames G f tm)" "typeOfName G P tm k = Inr t" by blast
    from typeOfName_block[OF this(2,1)] show ?thesis using 3(2) by (auto simp: joined_def)
  qed
qed

lemma schemaDefinition_operations:
  "schemaDefinition P S =
     keyword ''schema'' @ '' {\<newline>''
       @ join ''\<newline>''
           (concat (map (\<lambda>(operation, type).
                      case type of None \<Rightarrow> []
                      | Some t \<Rightarrow> [''  '' @ property operation @ '': '' @ useIdentifier t (url P t)])
                    [(''query'', queryType S), (''mutation'', mutationType S),
                     (''subscription'', subscriptionType S)]))
       @ ''\<newline>}''"
  by (simp add: schemaDefinition_def Let_def split: option.splits)

lemma sample_schema_rendering:
  "schema sampleLibrary samplePlugin sampleSchema = Inr sampleRendering"
  by (simp add: schema_def filteredSchema_def sortedTypeNames_def sortCmp_def typeOfName_def
      directive_def args_def object_def fields_def field_def desc_def breakText_def
      is_space_def comment_def property_def keyword_def identifier'_def useIdentifier_def
      truthy_def deprecated_def isNullish_def scalar_def schemaDefinition_def joined_def
      isDefinedType_def isIntrospectionType_def isBuiltInScalar_def isSpecDirective_def
      sampleLibrary_def samplePlugin_def sampleSchema_def sampleRendering_def Let_def)

lemma sample_type_names:
  "sortedTypeNames sampleLibrary isDefinedType (typeMap sampleSchema) = [''Query'', ''Widget'']"
  by (simp add: sortedTypeNames_def sortCmp_def isDefinedType_def isIntrospectionType_def
      isBuiltInScalar_def sampleLibrary_def sampleSchema_def)

text \<open>
  C5: a name is among those the whole-schema rendering lists exactly when it is a key of
  the type map that neither begins with \<open>__\<close> nor is \<open>String\<close>, \<open>Boolean\<close>, \<open>Int\<close>,
  \<open>Float\<close> or \<open>ID\<close>; the rendering ends with the blocks of these names.
\<close>

theorem schema_type_listing:
  "(k \<in> set (sortedTypeNames G isDefinedType (typeMap S)) \<longleftrightarrow>
      k \<in> fst ` set (typeMap S) \<and> \<not> prefix ''__'' k \<and>
      k \<notin> {''String'', ''Boolean'', ''Int'', ''Float'', ''ID''}) \<and>
   (schema G P S = Inr out \<longrightarrow>
      (\<exists>ds ts.
         mapE (typeOfName G P (typeMap S)) (sortedTypeNames G isDefinedType (typeMap S)) = Inr ts \<and>
         out = join ''\<newline>\<newline>'' ([schemaDefinition P S] @ ds @ map joined ts) @ ''\<newline>''))"
proof -
  have "k \<in> set (sortedTypeNames G isDefinedType (typeMap S)) \<longleftrightarrow>
      k \<in> fst ` set (typeMap S) \<and> isDefinedType k"
    by (auto simp: sortedTypeNames_def set_sortCmp)
  then show ?thesis unfolding isDefinedType_iff schema_Inr_iff by blast
qed

theorem schema_type_listing_witness:
  "''Widget'' \<in> set (sortedTypeNames sampleLibrary isDefinedType (typeMap sampleSchema)) \<and>
   ''__Type'' \<notin> set (sortedTypeNames sampleLibrary isDefinedType (typeMap sampleSchema)) \<and>
   ''String'' \<notin> set (sortedTypeNames sampleLibrary isDefinedType (typeMap sampleSchema)) \<and>
   ''__Type'' \<in> fst ` set (typeMap sampleSchema) \<and>
   ''String'' \<in> fst ` set (typeMap sampleSchema) \<and>
   schema sampleLibrary samplePlugin sampleSchema = Inr sampleRendering"
proof -
  have k: "''Widget'' \<in> fst ` set (typeMap sampleSchema)"
    "''__Type'' \<in> fst ` set (typeMap sampleSchema)"
    "''String'' \<in> fst ` set (typeMap sampleSchema)"
    by (simp_all add: sampleSchema_def)
  have 1: "''Widget'' \<in> set (sortedTypeNames sampleLibrary isDefinedType (typeMap sampleSchema))"
    using schema_type_listing [of "''Widget''" sampleLibrary sampleSchema] k(1) by simp
  have 2: "''__Type'' \<notin> set (sortedTypeNames sampleLibrary isDefinedType (typeMap sampleSchema))"
    using schema_type_listing [of "''__Type''" sampleLibrary sampleSchema] by simp
  have 3: "''String'' \<notin> set (sortedTypeNames sampleLibrary isDefinedType (typeMap sampleSchema))"
    using schema_type_listing [of "''String''" sampleLibrary sampleSchema] by simp
  from 1 2 3 k(2,3) sample_schema_rendering show ?thesis by (intro conjI)
qed

text \<open>
  C6: a whole-schema rendering that returns is the schema-definition block, the blocks of
  the directives that are not \<open>skip\<close>, \<open>include\<close> or \<open>deprecated\<close>, in their order, and
  the blocks of the listed type names, in their order, joined by blank lines and followed
  by a newline; no block is empty or ends in a newline, so the result ends in exactly one.
  It does return when the schema is well-formed. The schema-definition block lists the
  root operation types that are present, in the order query, mutation, subscription. The
  listed names are the surviving keys of the type map, each as often as there, and they
  are in the order of \<^verbatim>\<open>localeCompare\<close> whenever that comparator orders consistently.
\<close>

theorem schema_layout:
  "(schema G P S = Inr out \<longrightarrow>
      (\<exists>ds ts.
         mapE (directive G P) (filter (\<lambda>d. \<not> isSpecDirective (d_name d)) (directives S)) = Inr ds \<and>
         mapE (typeOfName G P (typeMap S)) (sortedTypeNames G isDefinedType (typeMap S)) = Inr ts \<and>
         length ds = length (filter (\<lambda>d. \<not> isSpecDirective (d_name d)) (directives S)) \<and>
         length ts = length (filter isDefinedType (map fst (typeMap S))) \<and>
         out = join ''\<newline>\<newline>'' ([schemaDefinition P S] @ ds @ map joined ts) @ ''\<newline>'' \<and>
         (\<forall>b\<in>set ([schemaDefinition P S] @ ds @ map joined ts).
            b \<noteq> [] \<and> last b \<noteq> CHR ''\<newline>'') \<and>
         last out = CHR ''\<newline>'' \<and> last (butlast out) \<noteq> CHR ''\<newline>'')) \<and>
   (wellFormedSchema G S \<longrightarrow> (\<exists>res. schema G P S = Inr res)) \<and>
   schemaDefinition P S =
     keyword ''schema'' @ '' {\<newline>''
       @ join ''\<newline>''
           (concat (map (\<lambda>(operation, type).
                      case type of None \<Rightarrow> []
                      | Some t \<Rightarrow> [''  '' @ property operation @ '': '' @ useIdentifier t (url P t)])
                    [(''query'', queryType S), (''mutation'', mutationType S),
                     (''subscription'', subscriptionType S)]))
       @ ''\<newline>}'' \<and>
   mset (sortedTypeNames G isDefinedType (typeMap S))
     = mset (filter isDefinedType (map fst (typeMap S))) \<and>
   (total_preorder (localeCompare G) \<longrightarrow>
      sorted_wrt (\<lambda>name1 name2. localeCompare G name1 name2 \<le> 0)
        (sortedTypeNames G isDefinedType (typeMap S)))"
proof -
  let ?dirs = "filter (\<lambda>d. \<not> isSpecDirective (d_name d)) (directives S)"
  let ?names = "sortedTypeNames G isDefinedType (typeMap S)"
  have perm: "mset ?names = mset (filter isDefinedType (map fst (typeMap S)))"
    by (simp add: sortedTypeNames_def mset_sortCmp)
  have 1: "schema G P S = Inr out \<longrightarrow>
      (\<exists>ds ts.
         mapE (directive G P) ?dirs = Inr ds \<and>
         mapE (typeOfName G P (typeMap S)) ?names = Inr ts \<and>
         length ds = length ?dirs \<and>
         length ts = length (filter isDefinedType (map fst (typeMap S))) \<and>
         out = join ''\<newline>\<newline>'' ([schemaDefinition P S] @ ds @ map joined ts) @ ''\<newline>'' \<and>
         (\<forall>b\<in>set ([schemaDefinition P S] @ ds @ map joined ts).
            b \<noteq> [] \<and> last b \<noteq> CHR ''\<newline>'') \<and>
         last out = CHR ''\<newline>'' \<and> last (butlast out) \<noteq> CHR ''\<newline>'')"
  proof
    assume "schema G P S = Inr out"
    then obtain ds ts where ds: "mapE (directive G P) ?dirs = Inr ds"
      and ts: "mapE (typeOfName G P (typeMap S)) ?names = Inr ts"
      and out: "out = join ''\<newline>\<newline>'' ([schemaDefinition P S] @ ds @ map joined ts) @ ''\<newline>''"
      unfolding schema_Inr_iff by blast
    let ?bs = "[schemaDefinition P S] @ ds @ map joined ts"
    have bs: "\<forall>b\<in>set ?bs. b \<noteq> [] \<and> last b \<noteq> CHR ''\<newline>''"
      using schema_blocks[OF ds ts, of S] by simp
    have ne: "?bs \<noteq> []" by simp
    then have "last ?bs \<in> set ?bs" by (rule last_in_set)
    with bs have l: "last ?bs \<noteq> []" "last (last ?bs) \<noteq> CHR ''\<newline>''" by blast+
    from join_last[OF ne l(1), of "''\<newline>\<newline>''"] l(2)
    have "last (join ''\<newline>\<newline>'' ?bs) \<noteq> CHR ''\<newline>''" by simp
    then have e: "last out = CHR ''\<newline>'' \<and> last (butlast out) \<noteq> CHR ''\<newline>''"
      unfolding out by (simp add: butlast_append)
    have "length ts = length ?names" using ts by (rule mapE_length)
    also have "\<dots> = length (filter isDefinedType (map fst (typeMap S)))"
      using perm by (metis size_mset)
    finally have lt: "length ts = length (filter isDefinedType (map fst (typeMap S)))" .
    from ds ts mapE_length[OF ds] lt out bs e
    show "\<exists>ds ts.
         mapE (directive G P) ?dirs = Inr ds \<and>
         mapE (typeOfName G P (typeMap S)) ?names = Inr ts \<and>
         length ds = length ?dirs \<and>
         length ts = length (filter isDefinedType (map fst (typeMap S))) \<and>
         out = join ''\<newline>\<newline>'' ([schemaDefinition P S] @ ds @ map joined ts) @ ''\<newline>'' \<and>
         (\<forall>b\<in>set ([schemaDefinition P S] @ ds @ map joined ts).
            b \<noteq> [] \<and> last b \<noteq> CHR ''\<newline>'') \<and>
         last out = CHR ''\<newline>'' \<and> last (butlast out) \<noteq> CHR ''\<newline>''"
      by blast
  qed
  have 2: "wellFormedSchema G S \<longrightarrow> (\<exists>res. schema G P S = Inr res)"
    using schema_returns[of G S P] by blast
  have 3: "total_preorder (localeCompare G) \<longrightarrow>
      sorted_wrt (\<lambda>name1 name2. localeCompare G name1 name2 \<le> 0) ?names"
  proof
    assume "total_preorder (localeCompare G)"
    then have a: "\<And>a b. localeCompare G a b \<le> 0 \<or> localeCompare G b a \<le> 0"
      and b: "\<And>a b c. localeCompare G a b \<le> 0 \<Longrightarrow> localeCompare G b c \<le> 0
                \<Longrightarrow> localeCompare G a c \<le> 0"
      unfolding total_preorder_def by blast+
    show "sorted_wrt (\<lambda>name1 name2. localeCompare G name1 name2 \<le> 0) ?names"
      unfolding sortedTypeNames_def by (rule sorted_sortCmp) (fact a, fact b)
  qed
  from 1 2 schemaDefinition_operations[of P S] perm 3 show ?thesis by (intro conjI)
qed

theorem schema_layout_witness:
  "schema sampleLibrary samplePlugin sampleSchema = Inr sampleRendering \<and>
   last sampleRendering = CHR ''\<newline>'' \<and> last (butlast sampleRendering) \<noteq> CHR ''\<newline>'' \<and>
   wellFormedSchema sampleLibrary sampleSchema \<and>
   (\<exists>res. schema sampleLibrary samplePlugin sampleSchema = Inr res) \<and>
   total_preorder (localeCompare sampleLibrary) \<and>
   sorted_wrt (\<lambda>name1 name2. localeCompare sampleLibrary name1 name2 \<le> 0)
     (sortedTypeNames sampleLibrary isDefinedType (typeMap sampleSchema)) \<and>
   sortedTypeNames sampleLibrary isDefinedType (typeMap sampleSchema) = [''Query'', ''Widget'']"
proof -
  note T = schema_layout [of sampleLibrary samplePlugin sampleSchema sampleRendering]
  note r = sample_schema_rendering
  have p: "wellFormedSchema sampleLibrary sampleSchema"
    by (simp add: wellFormedSchema_def wellFormedDirective_def wellFormedField_def
        wellFormedReason_def sampleSchema_def)
  have c: "total_preorder (localeCompare sampleLibrary)"
    by (simp add: sampleLibrary_def codeUnitCompare_preorder)
  from T r have 1: "last sampleRendering = CHR ''\<newline>''"
    and 2: "last (butlast sampleRendering) \<noteq> CHR ''\<newline>''"
    by blast+
  from T p have 3: "\<exists>res. schema sampleLibrary samplePlugin sampleSchema = Inr res"
    by blast
  from T c have 4: "sorted_wrt (\<lambda>name1 name2. localeCompare sampleLibrary name1 name2 \<le> 0)
     (sortedTypeNames sampleLibrary isDefinedType (typeMap sampleSchema))"
    by blast
  from r 1 2 p 3 c 4 sample_type_names show ?thesis by (intro conjI)
qed

section \<open>The entry point\<close>

text \<open>
  C10: a section that \<^verbatim>\<open>getSections\<close> returns carries the title of the plugin, and its
  description is the definition rendered for the input, of the schema or of the type,
  between \<open><pre class="code">\<close> and \<open></pre>\<close>.
\<close>

theorem getSections_section:
  assumes "getSections G P x = Inr (Some sec)"
  shows \<open>section_title sec = title P \<and>
         (\<exists>d. (case x of OfSchema s \<Rightarrow> schema G P s = Inr d
                | OfType t \<Rightarrow> type' G P t = Inr (Some d)) \<and>
              section_description sec = ''<pre class="code">'' @ d @ ''</pre>'')\<close>
proof -
  from assms obtain r where r: "(case x of
        OfSchema s \<Rightarrow> bindE (schema G P s) (\<lambda>d. Inr (Some d)) | OfType t \<Rightarrow> type' G P t) = Inr r"
    and s: \<open>(if truthy r
           then Inr (Some \<lparr>section_title = title P,
                  section_description = ''<pre class="code">'' @ the r @ ''</pre>''\<rparr>)
           else Inr None) = (Inr (Some sec) :: error + documentSection option)\<close>
    unfolding getSections_def bindE_Inr_iff by blast
  from s have t: "truthy r" by (auto split: if_splits)
  then obtain d where d: "r = Some d" by (cases r) (auto simp: truthy_def)
  from s t d have sec: \<open>sec = \<lparr>section_title = title P,
                  section_description = ''<pre class="code">'' @ d @ ''</pre>''\<rparr>\<close>
    by simp
  have "case x of OfSchema s \<Rightarrow> schema G P s = Inr d | OfType t \<Rightarrow> type' G P t = Inr (Some d)"
    using r d by (cases x) (auto simp: bindE_Inr_iff)
  then show ?thesis using sec by auto
qed

theorem getSections_section_witness:
  \<open>getSections sampleLibrary samplePlugin (OfType (NamedType (GraphQLScalarType \<lparr>s_name = ''Date''\<rparr>)))
     = Inr (Some \<lparr>section_title = ''Schema'',
                  section_description = ''<pre class="code"><span class="keyword operator ts">scalar</span> <span class="identifier">Date</span></pre>''\<rparr>) \<and>
   title samplePlugin = ''Schema'' \<and>
   type' sampleLibrary samplePlugin (NamedType (GraphQLScalarType \<lparr>s_name = ''Date''\<rparr>))
     = Inr (Some ''<span class="keyword operator ts">scalar</span> <span class="identifier">Date</span>'')\<close>
proof -
  have g: \<open>getSections sampleLibrary samplePlugin
        (OfType (NamedType (GraphQLScalarType \<lparr>s_name = ''Date''\<rparr>)))
     = Inr (Some \<lparr>section_title = ''Schema'',
                  section_description = ''<pre class="code"><span class="keyword operator ts">scalar</span> <span class="identifier">Date</span></pre>''\<rparr>)\<close>
    by (simp add: getSections_def truthy_def scalar_def keyword_def identifier'_def
        samplePlugin_def)
  from getSections_section [OF g] have "title samplePlugin = ''Schema''" by simp
  moreover have \<open>type' sampleLibrary samplePlugin (NamedType (GraphQLScalarType \<lparr>s_name = ''Date''\<rparr>))
     = Inr (Some ''<span class="keyword operator ts">scalar</span> <span class="identifier">Date</span>'')\<close>
    by (simp add: scalar_def keyword_def identifier'_def)
  ultimately show ?thesis using g by (intro conjI)
qed

end
